theory Spec2Isabelle
  imports Main
begin

section \<open>Errors\<close>

text \<open>
  Every exception the modelled part of \<^verbatim>\<open>main.py\<close> can raise is a value. The
  constructor names follow the specification's taxonomy where it has a name for the
  failure; the comment gives the Python exception and the line raising it.
\<close>

datatype error =
    AddressValueError          \<comment> \<open>\<^verbatim>\<open>ip_network\<close>: the address is not a 32-bit value\<close>
  | NetmaskValueError          \<comment> \<open>\<^verbatim>\<open>ip_network\<close>: prefix length above 32\<close>
  | HostBitsSet                \<comment> \<open>\<^verbatim>\<open>ip_network\<close>: ValueError, host bits set (strict mode)\<close>
  | NewPrefixError             \<comment> \<open>\<^verbatim>\<open>subnets\<close>: ValueError, new prefix not longer or above 32\<close>
  | InvalidAllocationRequest   \<comment> \<open>ValueError raised at line 19\<close>
  | EndpointIndexError         \<comment> \<open>IndexError of \<^verbatim>\<open>link['endpoints'][i]\<close>, lines 36-37\<close>
  | UnpackError                \<comment> \<open>ValueError of a two-target unpacking, lines 38, 39, 42\<close>
  | SubnetExhausted            \<comment> \<open>IndexError of \<^verbatim>\<open>subnets.pop()\<close> on an empty list, line 41\<close>
  | MissingTopologyData        \<comment> \<open>ValueError raised at line 58\<close>
  | UnknownRouterReference     \<comment> \<open>KeyError of \<^verbatim>\<open>rtr_configs[router]\<close>, line 264\<close>
  | DeploymentToolFailure      \<comment> \<open>ValueError raised at line 298\<close>

section \<open>IPv4 networks (the part of Python's ipaddress module the program uses)\<close>

text \<open>
  An \<^verbatim>\<open>IPv4Network\<close> object holds the network address as an integer and the prefix
  length. The parent prefix is taken in its parsed form, the pair of the address integer
  and the prefix length that the text \<^verbatim>\<open>a.b.c.d/p\<close> denotes.
\<close>

record network =
  network_address :: nat
  prefixlen :: nat

definition hostmask :: "network \<Rightarrow> nat" where
  "hostmask n = 2 ^ (32 - prefixlen n) - 1"

definition broadcast_address :: "network \<Rightarrow> nat" where
  "broadcast_address n = network_address n + hostmask n"

text \<open>
  \<^verbatim>\<open>ip_network(parent_prefix)\<close> with the default \<^verbatim>\<open>strict=True\<close>: the address must fit in
  32 bits, the prefix length must not exceed 32, and no host bit may be set.
\<close>

definition ip_network :: "nat \<Rightarrow> nat \<Rightarrow> error + network" where
  "ip_network addr plen =
     (if 2 ^ 32 \<le> addr then Inl AddressValueError
      else if 32 < plen then Inl NetmaskValueError
      else if addr mod 2 ^ (32 - plen) \<noteq> 0 then Inl HostBitsSet
      else Inr \<lparr>network_address = addr, prefixlen = plen\<rparr>)"

text \<open>Python's \<^verbatim>\<open>range(start, stop, step)\<close> for a positive step.\<close>

definition py_range :: "nat \<Rightarrow> nat \<Rightarrow> nat \<Rightarrow> nat list" where
  "py_range start stop step =
     map (\<lambda>k. start + k * step) [0 ..< (stop - start + step - 1) div step]"

text \<open>
  \<^verbatim>\<open>network.subnets(new_prefix=p)\<close>: a /32 yields itself; otherwise the new prefix must
  lie between the network's own and 32, and the subnets start at every
  \<^verbatim>\<open>(hostmask + 1) >> prefixlen_diff\<close>-th address from the network address up to the
  broadcast address.
\<close>

definition subnets :: "network \<Rightarrow> nat \<Rightarrow> error + network list" where
  "subnets n new_prefix =
     (if prefixlen n = 32 then Inr [n]
      else if new_prefix < prefixlen n then Inl NewPrefixError
      else if 32 < new_prefix then Inl NewPrefixError
      else
        let prefixlen_diff = new_prefix - prefixlen n;
            start = network_address n;
            stop = broadcast_address n + 1;
            step = (hostmask n + 1) div 2 ^ prefixlen_diff
        in Inr (map (\<lambda>new_addr. \<lparr>network_address = new_addr, prefixlen = new_prefix\<rparr>)
                    (py_range start stop step)))"

text \<open>
  \<^verbatim>\<open>network.hosts()\<close>: both addresses of a /31, the single address of a /32, and
  otherwise every address strictly between the network and the broadcast address.
\<close>

definition hosts :: "network \<Rightarrow> nat list" where
  "hosts n =
     (if prefixlen n = 31 then [network_address n ..< Suc (broadcast_address n)]
      else if prefixlen n = 32 then [network_address n]
      else [Suc (network_address n) ..< broadcast_address n])"

text \<open>The decimal text of an integer, and the dotted-quad text of an address.\<close>

definition digit :: "nat \<Rightarrow> char" where
  "digit d = ''0123456789'' ! d"

function str_nat :: "nat \<Rightarrow> string" where
  "str_nat n = (if n < 10 then [digit n] else str_nat (n div 10) @ [digit (n mod 10)])"
  by pat_completeness auto
termination
  by (relation "measure id") auto

declare str_nat.simps [simp del]

definition str_ip :: "nat \<Rightarrow> string" where
  "str_ip a =
     str_nat (a div 2 ^ 24 mod 256) @ ''.'' @ str_nat (a div 2 ^ 16 mod 256) @ ''.'' @
     str_nat (a div 2 ^ 8 mod 256) @ ''.'' @ str_nat (a mod 256)"

section \<open>generate_31_subnets\<close>

definition generate_31_subnets :: "nat \<Rightarrow> nat \<Rightarrow> error + network list" where
  "generate_31_subnets addr plen =
     (case ip_network addr plen of
        Inl e \<Rightarrow> Inl e
      | Inr network \<Rightarrow>
          if 31 \<le> prefixlen network then Inl InvalidAllocationRequest
          else subnets network 31)"

section \<open>generate_frrouter_addressing_info\<close>

text \<open>
  The parsed topology: a dictionary that may have a \<^verbatim>\<open>links\<close> entry, a list of links,
  each with its list of endpoint texts.
\<close>

record link =
  endpoints :: "string list"

record parsed_data =
  links :: "link list option"

text \<open>
  \<^verbatim>\<open>rtr_configs\<close>: a dictionary from router name to its list of configuration lines, in
  insertion order.
\<close>

type_synonym rtr_configs = "(string \<times> string list) list"

text \<open>\<^verbatim>\<open>s.split(c)\<close> for a one-character separator.\<close>

fun split :: "char \<Rightarrow> string \<Rightarrow> string list" where
  "split c [] = [[]]"
| "split c (x # xs) =
     (if x = c then [] # split c xs
      else (case split c xs of [] \<Rightarrow> [[x]] | p # ps \<Rightarrow> (x # p) # ps))"

text \<open>\<^verbatim>\<open>a, b = xs\<close>: exactly two elements, or ValueError.\<close>

fun unpack2 :: "'a list \<Rightarrow> error + 'a \<times> 'a" where
  "unpack2 [a, b] = Inr (a, b)"
| "unpack2 _ = Inl UnpackError"

text \<open>\<^verbatim>\<open>xs.pop()\<close>: the last element and the list without it; nothing on an empty list.\<close>

definition pop :: "'a list \<Rightarrow> ('a \<times> 'a list) option" where
  "pop xs = (if xs = [] then None else Some (last xs, butlast xs))"

text \<open>
  Lines 45-49 (and 51-55): create the router's entry if it has none, then append the
  interface line and the address line to the router's list.
\<close>

definition append_lines :: "string \<Rightarrow> string list \<Rightarrow> rtr_configs \<Rightarrow> rtr_configs" where
  "append_lines router ls cfgs =
     map (\<lambda>(k, v). if k = router then (k, v @ ls) else (k, v)) cfgs"

definition add_interface :: "string \<Rightarrow> string \<Rightarrow> nat \<Rightarrow> nat \<Rightarrow> rtr_configs \<Rightarrow> rtr_configs" where
  "add_interface router ifname ip prefix cfgs =
     (let cfgs' = (if map_of cfgs router = None then cfgs @ [(router, [])] else cfgs)
      in append_lines router
           [''interface '' @ ifname @ ''\<newline>'',
            '' ip address '' @ str_ip ip @ ''/'' @ str_nat prefix @ ''\<newline>''] cfgs')"

text \<open>
  The body of the loop over the links, lines 36-55. The pool is mutated in place, so the
  pool as it stands is returned also when the body raises.
\<close>

definition assign_link ::
  "link \<Rightarrow> network list \<Rightarrow> rtr_configs \<Rightarrow> network list \<times> (error + rtr_configs)" where
  "assign_link lnk pool cfgs =
     (case endpoints lnk of
        a_end # b_end # _ \<Rightarrow>
          (case unpack2 (split CHR '':'' a_end) of
             Inl e \<Rightarrow> (pool, Inl e)
           | Inr (a_router, a_link) \<Rightarrow>
          (case unpack2 (split CHR '':'' b_end) of
             Inl e \<Rightarrow> (pool, Inl e)
           | Inr (b_router, b_link) \<Rightarrow>
          (case pop pool of
             None \<Rightarrow> (pool, Inl SubnetExhausted)
           | Some (s, pool') \<Rightarrow>
          (case unpack2 (hosts s) of
             Inl e \<Rightarrow> (pool', Inl e)
           | Inr (a_ip, b_ip) \<Rightarrow>
               let prefix = prefixlen s;
                   cfgs1 = add_interface a_router a_link a_ip prefix cfgs;
                   cfgs2 = add_interface b_router b_link b_ip prefix cfgs1
               in (pool', Inr cfgs2)))))
      | _ \<Rightarrow> (pool, Inl EndpointIndexError))"

fun assign_links ::
  "link list \<Rightarrow> network list \<Rightarrow> rtr_configs \<Rightarrow> network list \<times> (error + rtr_configs)" where
  "assign_links [] pool cfgs = (pool, Inr cfgs)"
| "assign_links (lnk # rest) pool cfgs =
     (case assign_link lnk pool cfgs of
        (pool', Inl e) \<Rightarrow> (pool', Inl e)
      | (pool', Inr cfgs') \<Rightarrow> assign_links rest pool' cfgs')"

definition generate_frrouter_addressing_info ::
  "network list \<Rightarrow> parsed_data \<Rightarrow> network list \<times> (error + rtr_configs)" where
  "generate_frrouter_addressing_info pool pd =
     (case links pd of
        Some ls \<Rightarrow> assign_links ls pool []
      | None \<Rightarrow> (pool, Inl MissingTopologyData))"

section \<open>main: assembling the router configurations (lines 223-264)\<close>

text \<open>Lines 250-256: three lines inserted at the front, three appended.\<close>

definition add_base_configs :: "rtr_configs \<Rightarrow> rtr_configs" where
  "add_base_configs cfgs =
     map (\<lambda>(router, ls).
            (router,
             ''no ipv6 forwarding \<newline>'' #
             (''hostname '' @ router @ '' \<newline>'') #
             ''frr defaults traditional \<newline>'' #
             ls @
             [''router ospf \<newline>'',
              '' network 10.254.0.0/16 area 0.0.0.0 \<newline>'',
              ''line vty \<newline>''])) cfgs"

text \<open>
  Lines 263-264: each entry of \<^verbatim>\<open>bgp_config\<close>, in order, is appended to the list of the
  router it names; a router with no list is a KeyError.
\<close>

fun append_bgp :: "(string \<times> string) list \<Rightarrow> rtr_configs \<Rightarrow> error + rtr_configs" where
  "append_bgp [] cfgs = Inr cfgs"
| "append_bgp ((router, config) # rest) cfgs =
     (case map_of cfgs router of
        None \<Rightarrow> Inl UnknownRouterReference
      | Some _ \<Rightarrow> append_bgp rest (append_lines router [config] cfgs))"

definition config_assembler :: "rtr_configs \<Rightarrow> (string \<times> string) list \<Rightarrow> error + rtr_configs" where
  "config_assembler cfgs bgp_config = append_bgp bgp_config (add_base_configs cfgs)"

text \<open>
  The parent prefix of line 223, \<^verbatim>\<open>10.254.0.0/24\<close>, and the run of \<^verbatim>\<open>main\<close> from it to
  the assembled configurations. The topology and the BGP texts come from the language
  model; they are the arguments.
\<close>

definition parent_prefix :: "nat \<times> nat" where
  "parent_prefix = (10 * 2 ^ 24 + 254 * 2 ^ 16, 24)"

definition main_configs :: "parsed_data \<Rightarrow> (string \<times> string) list \<Rightarrow> error + rtr_configs" where
  "main_configs pd bgp_config =
     (case generate_31_subnets (fst parent_prefix) (snd parent_prefix) of
        Inl e \<Rightarrow> Inl e
      | Inr pool \<Rightarrow>
          (case generate_frrouter_addressing_info pool pd of
             (_, Inl e) \<Rightarrow> Inl e
           | (_, Inr cfgs) \<Rightarrow> config_assembler cfgs bgp_config))"

section \<open>main: deploying (lines 294-298)\<close>

text \<open>
  What the deployment tool does when run: what it writes to its two streams and its
  exit code. \<^verbatim>\<open>Popen\<close> connects a stream to a pipe only when asked to, and
  \<^verbatim>\<open>communicate()\<close> returns the data of a piped stream and \<^verbatim>\<open>None\<close> for a stream that
  is not piped.
\<close>

record tool_run =
  tool_stdout :: string
  tool_stderr :: string
  returncode :: int

datatype redirect = PIPE | Inherited

definition communicate :: "redirect \<Rightarrow> redirect \<Rightarrow> tool_run \<Rightarrow> string option \<times> string option" where
  "communicate out err r =
     (if out = PIPE then Some (tool_stdout r) else None,
      if err = PIPE then Some (tool_stderr r) else None)"

text \<open>Python's truth value of \<^verbatim>\<open>None\<close> or a byte string.\<close>

fun truthy :: "string option \<Rightarrow> bool" where
  "truthy None = False"
| "truthy (Some s) = (s \<noteq> [])"

text \<open>
  Lines 294-298: \<^verbatim>\<open>Popen(command.split(), stdout=subprocess.PIPE)\<close>, no \<^verbatim>\<open>stderr\<close>
  argument.
\<close>

definition deploy :: "tool_run \<Rightarrow> error + unit" where
  "deploy r =
     (let (output, error) = communicate PIPE Inherited r
      in if truthy error then Inl DeploymentToolFailure else Inr ())"

section \<open>Notions of the specification\<close>

text \<open>The set of addresses a network covers, from its network address to its broadcast address.\<close>

definition addresses :: "network \<Rightarrow> nat set" where
  "addresses n = {network_address n .. broadcast_address n}"

text \<open>
  The two parts of an endpoint text \<^verbatim>\<open>router:interface\<close>, and the links on which lines
  36-39 raise nothing: at least two endpoints, the first two with exactly one colon each.
\<close>

definition router_of :: "string \<Rightarrow> string" where
  "router_of e = split CHR '':'' e ! 0"

definition iface_of :: "string \<Rightarrow> string" where
  "iface_of e = split CHR '':'' e ! 1"

definition wf_link :: "link \<Rightarrow> bool" where
  "wf_link l = (2 \<le> length (endpoints l)
      \<and> length (split CHR '':'' (endpoints l ! 0)) = 2
      \<and> length (split CHR '':'' (endpoints l ! 1)) = 2)"

text \<open>
  The two lines that lines 48-49 (and 54-55) append for one endpoint, and what one link,
  given its subnet, contributes to the list of router \<open>r\<close>: the block of the first
  endpoint with the subnet's lower address, then the block of the second endpoint with
  the next address, each only if the endpoint names \<open>r\<close>.
\<close>

definition interface_block :: "string \<Rightarrow> nat \<Rightarrow> nat \<Rightarrow> string list" where
  "interface_block ifname ip prefix =
     [''interface '' @ ifname @ ''\<newline>'',
      '' ip address '' @ str_ip ip @ ''/'' @ str_nat prefix @ ''\<newline>'']"

definition link_fragments :: "string \<Rightarrow> link \<times> network \<Rightarrow> string list" where
  "link_fragments r = (\<lambda>(l, s).
     (if router_of (endpoints l ! 0) = r
      then interface_block (iface_of (endpoints l ! 0)) (network_address s) 31 else []) @
     (if router_of (endpoints l ! 1) = r
      then interface_block (iface_of (endpoints l ! 1)) (Suc (network_address s)) 31 else []))"

text \<open>The routers the links name, and the lines a dictionary holds for a router.\<close>

definition routers_of_links :: "link list \<Rightarrow> string set" where
  "routers_of_links ls = (\<Union>l \<in> set ls. {router_of (endpoints l ! 0), router_of (endpoints l ! 1)})"

definition lines_of :: "rtr_configs \<Rightarrow> string \<Rightarrow> string list" where
  "lines_of cfgs r = (case map_of cfgs r of None \<Rightarrow> [] | Some v \<Rightarrow> v)"

text \<open>
  The lines of router \<open>r\<close> when the links take the subnets of the pool from its tail:
  the i-th link is paired with the i-th subnet of the reversed pool.
\<close>

definition pool_fragments :: "string \<Rightarrow> link list \<Rightarrow> network list \<Rightarrow> string list" where
  "pool_fragments r ls pool = concat (map (link_fragments r) (zip ls (rev pool)))"

section \<open>The subnet allocator\<close>

lemma pow2_split: "p < 31 \<Longrightarrow> (2::nat) ^ (32 - p) = 2 * 2 ^ (31 - p)"
proof -
  assume "p < 31"
  then have "32 - p = Suc (31 - p)" by simp
  then show ?thesis by simp
qed

lemma subnets_31:
  assumes "prefixlen n < 31"
  shows "subnets n 31 =
     Inr (map (\<lambda>i. \<lparr>network_address = network_address n + 2 * i, prefixlen = 31\<rparr>)
              [0 ..< 2 ^ (31 - prefixlen n)])"
proof -
  let ?m = "(2::nat) ^ (31 - prefixlen n)"
  have h: "hostmask n + 1 = 2 * ?m"
    using pow2_split [OF assms] by (simp add: hostmask_def)
  have step: "(hostmask n + 1) div 2 ^ (31 - prefixlen n) = 2"
    using h by simp
  have cnt: "(broadcast_address n + 1 - network_address n + 2 - 1) div 2 = ?m"
    using h by (simp add: broadcast_address_def)
  have "py_range (network_address n) (broadcast_address n + 1) 2
          = map (\<lambda>k. network_address n + k * 2) [0 ..< ?m]"
    unfolding py_range_def cnt ..
  then show ?thesis
    using assms step by (simp add: subnets_def Let_def o_def mult.commute)
qed

lemma hosts_31: "prefixlen s = 31 \<Longrightarrow> hosts s = [network_address s, Suc (network_address s)]"
  by (simp add: hosts_def broadcast_address_def hostmask_def upt_rec)

lemma ip_network_Inr:
  "ip_network addr plen = Inr n \<Longrightarrow>
     n = \<lparr>network_address = addr, prefixlen = plen\<rparr> \<and> addr < 2 ^ 32 \<and> plen \<le> 32
       \<and> addr mod 2 ^ (32 - plen) = 0"
  by (auto simp: ip_network_def split: if_splits)

lemma generate_31_subnets_eq:
  assumes "ip_network addr plen = Inr n" and "plen < 31"
  shows "generate_31_subnets addr plen =
     Inr (map (\<lambda>i. \<lparr>network_address = addr + 2 * i, prefixlen = 31\<rparr>) [0 ..< 2 ^ (31 - plen)])"
proof -
  from ip_network_Inr [OF assms(1)] have n: "n = \<lparr>network_address = addr, prefixlen = plen\<rparr>" by simp
  have "prefixlen n < 31" using n assms(2) by simp
  from subnets_31 [OF this] show ?thesis
    using assms n by (simp add: generate_31_subnets_def)
qed

lemma addresses_31:
  "addresses \<lparr>network_address = a, prefixlen = 31\<rparr> = {a, Suc a}"
  by (auto simp: addresses_def broadcast_address_def hostmask_def)

lemma broadcast_31:
  "broadcast_address \<lparr>network_address = a, prefixlen = 31\<rparr> = Suc a"
  by (simp add: broadcast_address_def hostmask_def)

lemma cover_31:
  "(\<Union>i \<in> {0 ..< m}. {a + 2 * i, Suc (a + 2 * i)}) = {a ..< a + 2 * m}"
proof (intro equalityI subsetI)
  fix x assume "x \<in> (\<Union>i \<in> {0 ..< m}. {a + 2 * i, Suc (a + 2 * i)})"
  then show "x \<in> {a ..< a + 2 * m}" by auto
next
  fix x assume x: "x \<in> {a ..< a + 2 * m}"
  let ?i = "(x - a) div 2"
  have "?i < m" using x by auto
  moreover have "x = a + 2 * ?i \<or> x = Suc (a + 2 * ?i)" using x by auto
  ultimately show "x \<in> (\<Union>i \<in> {0 ..< m}. {a + 2 * i, Suc (a + 2 * i)})" by auto
qed

lemma closed_interval: "0 < m \<Longrightarrow> {a .. a + 2 * m - 1} = {a ..< a + 2 * (m::nat)}"
  by auto

text \<open>
  Claim C1. For every valid IPv4 block of prefix length \<open>p < 31\<close>,
  \<open>generate_31_subnets\<close> returns \<open>2 ^ (31 - p)\<close> subnets, each a /31; two different
  ones share no address; each starts right after the broadcast address of the one before
  it; their network addresses increase; and together they cover exactly the addresses of
  the block.
\<close>

theorem generate_31_subnets_partition:
  assumes "ip_network addr plen = Inr n" and "plen < 31"
  shows "\<exists>subs. generate_31_subnets addr plen = Inr subs
     \<and> length subs = 2 ^ (31 - plen)
     \<and> (\<forall>s \<in> set subs. prefixlen s = 31)
     \<and> (\<forall>i j. i < j \<and> j < length subs \<longrightarrow> addresses (subs ! i) \<inter> addresses (subs ! j) = {})
     \<and> (\<forall>i. Suc i < length subs \<longrightarrow>
            network_address (subs ! Suc i) = Suc (broadcast_address (subs ! i)))
     \<and> sorted_wrt (\<lambda>s t. network_address s < network_address t) subs
     \<and> (\<Union>s \<in> set subs. addresses s) = addresses n"
proof -
  let ?m = "(2::nat) ^ (31 - plen)"
  let ?f = "\<lambda>i. \<lparr>network_address = addr + 2 * i, prefixlen = 31\<rparr>"
  let ?subs = "map ?f [0 ..< ?m]"
  have eq: "generate_31_subnets addr plen = Inr ?subs"
    by (rule generate_31_subnets_eq [OF assms])
  have n: "n = \<lparr>network_address = addr, prefixlen = plen\<rparr>"
    using ip_network_Inr [OF assms(1)] by simp
  have len: "length ?subs = ?m" by simp
  have pl: "\<forall>s \<in> set ?subs. prefixlen s = 31" by auto
  have disj: "\<forall>i j. i < j \<and> j < length ?subs \<longrightarrow> addresses (?subs ! i) \<inter> addresses (?subs ! j) = {}"
    by (auto simp: addresses_31)
  have contig: "\<forall>i. Suc i < length ?subs \<longrightarrow>
            network_address (?subs ! Suc i) = Suc (broadcast_address (?subs ! i))"
    by (auto simp: broadcast_31)
  have srt: "sorted_wrt (\<lambda>s t. network_address s < network_address t) ?subs"
    by (simp add: sorted_wrt_map sorted_wrt_iff_nth_less)
  have pos: "0 < ?m" by simp
  have "hostmask n = 2 * ?m - 1"
    using pow2_split [OF assms(2)] n by (simp add: hostmask_def)
  then have "broadcast_address n = addr + 2 * ?m - 1"
    using n pos by (simp add: broadcast_address_def)
  then have "addresses n = {addr .. addr + 2 * ?m - 1}"
    using n by (simp add: addresses_def)
  then have "addresses n = {addr ..< addr + 2 * ?m}"
    using closed_interval [OF pos] by simp
  moreover have "(\<Union>s \<in> set ?subs. addresses s) = (\<Union>i \<in> {0 ..< ?m}. {addr + 2 * i, Suc (addr + 2 * i)})"
    by (simp add: addresses_31)
  ultimately have cov: "(\<Union>s \<in> set ?subs. addresses s) = addresses n"
    by (simp only: cover_31)
  show ?thesis
    using eq len pl disj contig srt cov by blast
qed

theorem generate_31_subnets_partition_witness:
  "ip_network 184418304 30 = Inr \<lparr>network_address = 184418304, prefixlen = 30\<rparr>
   \<and> (30::nat) < 31
   \<and> (\<exists>subs. generate_31_subnets 184418304 30 = Inr subs
     \<and> length subs = 2
     \<and> (\<forall>s \<in> set subs. prefixlen s = 31)
     \<and> (\<forall>i j. i < j \<and> j < length subs \<longrightarrow> addresses (subs ! i) \<inter> addresses (subs ! j) = {})
     \<and> (\<forall>i. Suc i < length subs \<longrightarrow>
            network_address (subs ! Suc i) = Suc (broadcast_address (subs ! i)))
     \<and> sorted_wrt (\<lambda>s t. network_address s < network_address t) subs
     \<and> (\<Union>s \<in> set subs. addresses s)
          = addresses \<lparr>network_address = 184418304, prefixlen = 30\<rparr>)"
proof -
  have h1: "ip_network 184418304 30 = Inr \<lparr>network_address = 184418304, prefixlen = 30\<rparr>"
    by (simp add: ip_network_def)
  have h2: "(30::nat) < 31" by simp
  show ?thesis
    using h1 h2 generate_31_subnets_partition [OF h1 h2] by simp
qed


section \<open>The address assigner\<close>

lemma map_of_append_lines:
  "map_of (append_lines r ls cfgs) r' =
     (if r' = r then map_option (\<lambda>v. v @ ls) (map_of cfgs r) else map_of cfgs r')"
  by (induction cfgs) (auto simp: append_lines_def)

lemma keys_append_lines: "map fst (append_lines r ls cfgs) = map fst cfgs"
  by (induction cfgs) (auto simp: append_lines_def)

lemma map_of_add_interface:
  "map_of (add_interface r i ip p cfgs) r' =
     (if r' = r then Some (lines_of cfgs r @ interface_block i ip p) else map_of cfgs r')"
  by (auto simp: add_interface_def Let_def map_of_append_lines lines_of_def interface_block_def
                 map_add_def
           split: option.splits)

lemma keys_add_interface:
  "map fst (add_interface r i ip p cfgs) =
     (if map_of cfgs r = None then map fst cfgs @ [r] else map fst cfgs)"
  by (simp add: add_interface_def Let_def keys_append_lines)

lemma lines_of_add_interface:
  "lines_of (add_interface r i ip p cfgs) r' =
     (if r' = r then lines_of cfgs r @ interface_block i ip p else lines_of cfgs r')"
  by (simp add: lines_of_def map_of_add_interface)

lemma set_keys_add_interface:
  "fst ` set (add_interface r i ip p cfgs) = insert r (fst ` set cfgs)"
proof -
  have "set (map fst (add_interface r i ip p cfgs)) = insert r (set (map fst cfgs))"
    unfolding keys_add_interface
    by (auto simp: map_of_eq_None_iff)
  then show ?thesis by simp
qed

lemma unpack2_len2: "length xs = 2 \<Longrightarrow> unpack2 xs = Inr (xs ! 0, xs ! 1)"
proof -
  assume "length xs = 2"
  then obtain a b where "xs = [a, b]"
    by (metis One_nat_def Suc_1 length_0_conv length_Suc_conv)
  then show ?thesis by simp
qed

lemma assign_link_ok:
  assumes "wf_link l" and "pool \<noteq> []" and "prefixlen (last pool) = 31"
  shows "assign_link l pool cfgs =
     (butlast pool,
      Inr (add_interface (router_of (endpoints l ! 1)) (iface_of (endpoints l ! 1))
             (Suc (network_address (last pool))) 31
            (add_interface (router_of (endpoints l ! 0)) (iface_of (endpoints l ! 0))
               (network_address (last pool)) 31 cfgs)))"
proof -
  from assms(1) obtain a b rest where e: "endpoints l = a # b # rest"
    by (cases "endpoints l"; cases "tl (endpoints l)") (auto simp: wf_link_def)
  have ua: "unpack2 (split CHR '':'' a) = Inr (router_of a, iface_of a)"
    using assms(1) e by (simp add: wf_link_def unpack2_len2 router_of_def iface_of_def)
  have ub: "unpack2 (split CHR '':'' b) = Inr (router_of b, iface_of b)"
    using assms(1) e by (simp add: wf_link_def unpack2_len2 router_of_def iface_of_def)
  have uh: "unpack2 (hosts (last pool)) = Inr (network_address (last pool), Suc (network_address (last pool)))"
    using hosts_31 [OF assms(3)] by simp
  show ?thesis
    using assms(2,3) by (simp add: assign_link_def e ua ub uh pop_def Let_def)
qed

lemma pool_fragments_Cons:
  "pool \<noteq> [] \<Longrightarrow>
     pool_fragments r (l # ls) pool = link_fragments r (l, last pool) @ pool_fragments r ls (butlast pool)"
proof -
  assume "pool \<noteq> []"
  then have "rev pool = rev (butlast pool @ [last pool])" by simp
  then have R: "rev pool = last pool # rev (butlast pool)" by (simp only: rev_append rev.simps append.simps)
  show ?thesis by (simp add: pool_fragments_def R)
qed

lemma assign_link_lines:
  assumes "wf_link l" and "pool \<noteq> []" and "prefixlen (last pool) = 31"
  shows "\<exists>cfgs'. assign_link l pool cfgs = (butlast pool, Inr cfgs')
     \<and> fst ` set cfgs' = fst ` set cfgs \<union> routers_of_links [l]
     \<and> (\<forall>r. lines_of cfgs' r = lines_of cfgs r @ link_fragments r (l, last pool))"
  unfolding assign_link_ok [OF assms]
  by (auto simp: set_keys_add_interface lines_of_add_interface routers_of_links_def link_fragments_def)

lemma assign_links_run:
  assumes "\<forall>l \<in> set ls. wf_link l" and "\<forall>s \<in> set pool. prefixlen s = 31"
    and "length ls \<le> length pool"
  shows "\<exists>cfgs'. assign_links ls pool cfgs = (take (length pool - length ls) pool, Inr cfgs')
     \<and> fst ` set cfgs' = fst ` set cfgs \<union> routers_of_links ls
     \<and> (\<forall>r. lines_of cfgs' r = lines_of cfgs r @ pool_fragments r ls pool)"
  using assms
proof (induction ls arbitrary: pool cfgs)
  case Nil
  then show ?case by (simp add: routers_of_links_def pool_fragments_def)
next
  case (Cons l ls)
  from Cons.prems(3) have ne: "pool \<noteq> []" by auto
  then have lp: "prefixlen (last pool) = 31" using Cons.prems(2) by simp
  from Cons.prems(1) have wl: "wf_link l" by simp
  from assign_link_lines [OF wl ne lp, of cfgs] obtain c1 where
    s1: "assign_link l pool cfgs = (butlast pool, Inr c1)"
    and k1: "fst ` set c1 = fst ` set cfgs \<union> routers_of_links [l]"
    and l1: "\<forall>r. lines_of c1 r = lines_of cfgs r @ link_fragments r (l, last pool)"
    by blast
  have p1: "\<forall>l \<in> set ls. wf_link l" using Cons.prems(1) by simp
  have p2: "\<forall>s \<in> set (butlast pool). prefixlen s = 31"
    using Cons.prems(2) by (auto dest: in_set_butlastD)
  have p3: "length ls \<le> length (butlast pool)" using Cons.prems(3) by simp
  from Cons.IH [OF p1 p2 p3, of c1] obtain c2 where
    s2: "assign_links ls (butlast pool) c1 = (take (length (butlast pool) - length ls) (butlast pool), Inr c2)"
    and k2: "fst ` set c2 = fst ` set c1 \<union> routers_of_links ls"
    and l2: "\<forall>r. lines_of c2 r = lines_of c1 r @ pool_fragments r ls (butlast pool)"
    by blast
  have tk: "take (length (butlast pool) - length ls) (butlast pool)
          = take (length pool - length (l # ls)) pool"
    using ne Cons.prems(3) by (simp add: take_butlast)
  have "assign_links (l # ls) pool cfgs = (take (length pool - length (l # ls)) pool, Inr c2)"
    using s1 s2 tk by simp
  moreover have "fst ` set c2 = fst ` set cfgs \<union> routers_of_links (l # ls)"
    using k1 k2 by (auto simp: routers_of_links_def)
  moreover have "\<forall>r. lines_of c2 r = lines_of cfgs r @ pool_fragments r (l # ls) pool"
    using l1 l2 by (simp add: pool_fragments_Cons [OF ne])
  ultimately show ?case by blast
qed

lemma addressing_info_closed_form:
  assumes "\<forall>l \<in> set ls. wf_link l" and "\<forall>s \<in> set pool. prefixlen s = 31"
    and "length ls \<le> length pool"
  shows "\<exists>cfgs. generate_frrouter_addressing_info pool \<lparr>links = Some ls\<rparr>
                  = (take (length pool - length ls) pool, Inr cfgs)
     \<and> (\<forall>r. map_of cfgs r =
            (if r \<in> routers_of_links ls then Some (pool_fragments r ls pool) else None))"
proof -
  from assign_links_run [OF assms, of "[]"] obtain cfgs where
    s: "assign_links ls pool [] = (take (length pool - length ls) pool, Inr cfgs)"
    and k: "fst ` set cfgs = routers_of_links ls"
    and l: "\<forall>r. lines_of cfgs r = pool_fragments r ls pool"
    by (auto simp: lines_of_def)
  have "map_of cfgs r =
            (if r \<in> routers_of_links ls then Some (pool_fragments r ls pool) else None)" for r
  proof (cases "map_of cfgs r")
    case None
    then have "r \<notin> fst ` set cfgs" by (simp add: map_of_eq_None_iff)
    then show ?thesis using None k by simp
  next
    case (Some v)
    then have "r \<in> fst ` set cfgs" by (metis map_of_eq_None_iff option.distinct(1))
    moreover have "v = pool_fragments r ls pool"
      using l [rule_format, of r] Some by (simp add: lines_of_def)
    ultimately show ?thesis using Some k by simp
  qed
  then show ?thesis
    using s by (simp add: generate_frrouter_addressing_info_def)
qed

text \<open>
  Claim C2. On links that are well formed and a pool of /31 subnets at least as long as
  the link list, \<open>generate_frrouter_addressing_info\<close> succeeds; it leaves the pool
  without its last \<open>length ls\<close> subnets; the i-th link, in the order given, is served by
  the i-th subnet counted from the pool's tail; the lines of every router are the blocks
  of its endpoints in link order, the first endpoint of a link carrying the subnet's
  lower host address and the second the address one above it; and \<open>hosts\<close> of every
  subnet of the pool is that pair of addresses.
\<close>

theorem address_assigner_tail_first:
  assumes "\<forall>l \<in> set ls. wf_link l" and "\<forall>s \<in> set pool. prefixlen s = 31"
    and "length ls \<le> length pool"
  shows "\<exists>cfgs. generate_frrouter_addressing_info pool \<lparr>links = Some ls\<rparr>
                  = (take (length pool - length ls) pool, Inr cfgs)
     \<and> (\<forall>r. map_of cfgs r =
            (if r \<in> routers_of_links ls
             then Some (concat (map (link_fragments r) (zip ls (rev pool)))) else None))
     \<and> (\<forall>s \<in> set pool. hosts s = [network_address s, Suc (network_address s)])"
proof -
  from addressing_info_closed_form [OF assms] obtain cfgs where
    g: "generate_frrouter_addressing_info pool \<lparr>links = Some ls\<rparr>
          = (take (length pool - length ls) pool, Inr cfgs)"
    and m: "\<forall>r. map_of cfgs r =
            (if r \<in> routers_of_links ls then Some (pool_fragments r ls pool) else None)"
    by blast
  have h: "\<forall>s \<in> set pool. hosts s = [network_address s, Suc (network_address s)]"
    using assms(2) by (simp add: hosts_31)
  show ?thesis
    using g m h unfolding pool_fragments_def by blast
qed

theorem address_assigner_tail_first_witness:
  "wf_link \<lparr>endpoints = [''r1:eth1'', ''r2:eth1'']\<rparr>
   \<and> wf_link \<lparr>endpoints = [''r1:eth2'', ''r3:eth1'']\<rparr>
   \<and> length [\<lparr>endpoints = [''r1:eth1'', ''r2:eth1'']\<rparr>, \<lparr>endpoints = [''r1:eth2'', ''r3:eth1'']\<rparr>]
        \<le> length [\<lparr>network_address = 184418304, prefixlen = 31\<rparr>,
                   \<lparr>network_address = 184418306, prefixlen = 31\<rparr>,
                   \<lparr>network_address = 184418308, prefixlen = 31\<rparr>]
   \<and> (\<exists>cfgs. generate_frrouter_addressing_info
               [\<lparr>network_address = 184418304, prefixlen = 31\<rparr>,
                \<lparr>network_address = 184418306, prefixlen = 31\<rparr>,
                \<lparr>network_address = 184418308, prefixlen = 31\<rparr>]
               \<lparr>links = Some [\<lparr>endpoints = [''r1:eth1'', ''r2:eth1'']\<rparr>,
                              \<lparr>endpoints = [''r1:eth2'', ''r3:eth1'']\<rparr>]\<rparr>
             = ([\<lparr>network_address = 184418304, prefixlen = 31\<rparr>], Inr cfgs)
        \<and> map_of cfgs ''r1'' =
            Some (interface_block ''eth1'' 184418308 31 @ interface_block ''eth2'' 184418306 31)
        \<and> map_of cfgs ''r2'' = Some (interface_block ''eth1'' 184418309 31)
        \<and> map_of cfgs ''r3'' = Some (interface_block ''eth1'' 184418307 31)
        \<and> map_of cfgs ''r4'' = None)"
proof -
  let ?ls = "[\<lparr>endpoints = [''r1:eth1'', ''r2:eth1'']\<rparr>, \<lparr>endpoints = [''r1:eth2'', ''r3:eth1'']\<rparr>]"
  let ?pool = "[\<lparr>network_address = 184418304, prefixlen = 31\<rparr>,
                  \<lparr>network_address = 184418306, prefixlen = 31\<rparr>,
                  \<lparr>network_address = 184418308, prefixlen = 31\<rparr>]"
  have h1: "\<forall>l \<in> set ?ls. wf_link l" by (simp add: wf_link_def)
  have h2: "\<forall>s \<in> set ?pool. prefixlen s = 31" by simp
  have h3: "length ?ls \<le> length ?pool" by simp
  have r: "routers_of_links ?ls = {''r1'', ''r2'', ''r3''}"
    by (auto simp: routers_of_links_def router_of_def)
  from address_assigner_tail_first [OF h1 h2 h3] obtain cfgs where
    g: "generate_frrouter_addressing_info ?pool \<lparr>links = Some ?ls\<rparr> = (take (length ?pool - length ?ls) ?pool, Inr cfgs)"
    and m: "\<forall>r. map_of cfgs r =
            (if r \<in> routers_of_links ?ls
             then Some (concat (map (link_fragments r) (zip ?ls (rev ?pool)))) else None)"
    by blast
  have "map_of cfgs ''r1'' = Some (interface_block ''eth1'' 184418308 31 @ interface_block ''eth2'' 184418306 31)"
    unfolding m [rule_format] r by (simp add: link_fragments_def router_of_def iface_of_def)
  moreover have "map_of cfgs ''r2'' = Some (interface_block ''eth1'' 184418309 31)"
    unfolding m [rule_format] r by (simp add: link_fragments_def router_of_def iface_of_def)
  moreover have "map_of cfgs ''r3'' = Some (interface_block ''eth1'' 184418307 31)"
    unfolding m [rule_format] r by (simp add: link_fragments_def router_of_def iface_of_def)
  moreover have "map_of cfgs ''r4'' = None"
    unfolding m [rule_format] r by simp
  ultimately show ?thesis using h1 h3 g by auto
qed

section \<open>Exhaustion of the pool\<close>

lemma assign_link_empty_pool:
  assumes "wf_link l"
  shows "assign_link l [] cfgs = ([], Inl SubnetExhausted)"
proof -
  from assms obtain a b rest where e: "endpoints l = a # b # rest"
    by (cases "endpoints l"; cases "tl (endpoints l)") (auto simp: wf_link_def)
  have ua: "unpack2 (split CHR '':'' a) = Inr (router_of a, iface_of a)"
    using assms e by (simp add: wf_link_def unpack2_len2 router_of_def iface_of_def)
  have ub: "unpack2 (split CHR '':'' b) = Inr (router_of b, iface_of b)"
    using assms e by (simp add: wf_link_def unpack2_len2 router_of_def iface_of_def)
  show ?thesis by (simp add: assign_link_def e ua ub pop_def)
qed

lemma assign_links_exhausted:
  assumes "\<forall>l \<in> set ls. wf_link l" and "\<forall>s \<in> set pool. prefixlen s = 31"
    and "length pool < length ls"
  shows "assign_links ls pool cfgs = ([], Inl SubnetExhausted)"
  using assms
proof (induction ls arbitrary: pool cfgs)
  case Nil
  then show ?case by simp
next
  case (Cons l ls)
  from Cons.prems(1) have wl: "wf_link l" by simp
  show ?case
  proof (cases "pool = []")
    case True
    then show ?thesis using assign_link_empty_pool [OF wl] by simp
  next
    case False
    then have lp: "prefixlen (last pool) = 31" using Cons.prems(2) by simp
    have p1: "\<forall>l \<in> set ls. wf_link l" using Cons.prems(1) by simp
    have p2: "\<forall>s \<in> set (butlast pool). prefixlen s = 31"
      using Cons.prems(2) by (auto dest: in_set_butlastD)
    have p3: "length (butlast pool) < length ls"
      using Cons.prems(3) False by (cases pool rule: rev_cases) auto
    show ?thesis
      using assign_link_ok [OF wl False lp] Cons.IH [OF p1 p2 p3] by simp
  qed
qed

lemma generate_31_subnets_Inr:
  assumes "generate_31_subnets addr plen = Inr pool"
  shows "plen < 31 \<and> ip_network addr plen = Inr \<lparr>network_address = addr, prefixlen = plen\<rparr>"
proof (cases "ip_network addr plen")
  case (Inl e)
  then show ?thesis using assms by (simp add: generate_31_subnets_def)
next
  case (Inr n)
  from ip_network_Inr [OF Inr] have n: "n = \<lparr>network_address = addr, prefixlen = plen\<rparr>" by simp
  then show ?thesis using assms Inr by (auto simp: generate_31_subnets_def split: if_splits)
qed

lemma hosts_concat:
  "concat (map hosts (map (\<lambda>i. \<lparr>network_address = a + 2 * i, prefixlen = 31\<rparr>) [0 ..< m]))
     = [a ..< a + 2 * m]"
proof (induction m)
  case 0
  then show ?case by simp
next
  case (Suc m)
  have "[a ..< a + 2 * Suc m] = [a ..< a + 2 * m] @ [a + 2 * m, Suc (a + 2 * m)]"
    by (simp add: upt_Suc_append)
  then show ?case using Suc by (simp add: hosts_31)
qed

lemma generated_pool_distinct:
  assumes "generate_31_subnets addr plen = Inr pool"
  shows "(\<forall>s \<in> set pool. prefixlen s = 31) \<and> distinct pool \<and> distinct (concat (map hosts pool))"
proof -
  from generate_31_subnets_Inr [OF assms] have lt: "plen < 31"
    and ok: "ip_network addr plen = Inr \<lparr>network_address = addr, prefixlen = plen\<rparr>" by simp_all
  have pool: "pool = map (\<lambda>i. \<lparr>network_address = addr + 2 * i, prefixlen = 31\<rparr>) [0 ..< 2 ^ (31 - plen)]"
    using generate_31_subnets_eq [OF ok lt] assms by simp
  have "distinct pool" unfolding pool by (simp add: distinct_map inj_on_def)
  moreover have "distinct (concat (map hosts pool))" unfolding pool hosts_concat by simp
  moreover have "\<forall>s \<in> set pool. prefixlen s = 31" unfolding pool by auto
  ultimately show ?thesis by blast
qed

text \<open>
  Claim C5. When a parent block yields the pool and the topology has one well-formed
  link more than the pool has subnets, the run stops with the IndexError of
  \<open>subnets.pop()\<close> on the empty pool. Before that, for every \<open>i\<close> up to the pool's
  length, the first \<open>i\<close> links succeed and leave the pool without its last \<open>i\<close> subnets,
  so that the i-th link takes the i-th subnet from the tail; the subnets of the pool are
  pairwise different and so are all their host addresses: nothing is issued twice.
\<close>

theorem pool_exhaustion:
  assumes "generate_31_subnets addr plen = Inr pool"
    and "\<forall>l \<in> set ls. wf_link l" and "length ls = Suc (length pool)"
  shows "generate_frrouter_addressing_info pool \<lparr>links = Some ls\<rparr> = ([], Inl SubnetExhausted)
     \<and> (\<forall>i \<le> length pool. \<exists>cfgs.
            generate_frrouter_addressing_info pool \<lparr>links = Some (take i ls)\<rparr>
              = (take (length pool - i) pool, Inr cfgs))
     \<and> distinct pool
     \<and> distinct (concat (map hosts pool))"
proof -
  from generated_pool_distinct [OF assms(1)] have p31: "\<forall>s \<in> set pool. prefixlen s = 31"
    and d1: "distinct pool" and d2: "distinct (concat (map hosts pool))" by simp_all
  have lt: "length pool < length ls" using assms(3) by simp
  have ex: "generate_frrouter_addressing_info pool \<lparr>links = Some ls\<rparr> = ([], Inl SubnetExhausted)"
    using assign_links_exhausted [OF assms(2) p31 lt]
    by (simp add: generate_frrouter_addressing_info_def)
  have "\<exists>cfgs. generate_frrouter_addressing_info pool \<lparr>links = Some (take i ls)\<rparr>
              = (take (length pool - i) pool, Inr cfgs)" if "i \<le> length pool" for i
  proof -
    have w: "\<forall>l \<in> set (take i ls). wf_link l" using assms(2) by (auto dest: in_set_takeD)
    have len: "length (take i ls) = i" using that assms(3) by simp
    then have le: "length (take i ls) \<le> length pool" using that by simp
    from assign_links_run [OF w p31 le, of "[]"] obtain cfgs where
      "assign_links (take i ls) pool [] = (take (length pool - length (take i ls)) pool, Inr cfgs)"
      by blast
    then have "assign_links (take i ls) pool [] = (take (length pool - i) pool, Inr cfgs)"
      by (simp only: len)
    then show ?thesis
      by (simp add: generate_frrouter_addressing_info_def)
  qed
  then show ?thesis using ex d1 d2 by blast
qed

theorem pool_exhaustion_witness:
  "generate_31_subnets 184418304 30
      = Inr [\<lparr>network_address = 184418304, prefixlen = 31\<rparr>, \<lparr>network_address = 184418306, prefixlen = 31\<rparr>]
   \<and> wf_link \<lparr>endpoints = [''r1:eth1'', ''r2:eth1'']\<rparr>
   \<and> wf_link \<lparr>endpoints = [''r1:eth2'', ''r3:eth1'']\<rparr>
   \<and> wf_link \<lparr>endpoints = [''r2:eth2'', ''r3:eth2'']\<rparr>
   \<and> generate_frrouter_addressing_info
        [\<lparr>network_address = 184418304, prefixlen = 31\<rparr>, \<lparr>network_address = 184418306, prefixlen = 31\<rparr>]
        \<lparr>links = Some [\<lparr>endpoints = [''r1:eth1'', ''r2:eth1'']\<rparr>, \<lparr>endpoints = [''r1:eth2'', ''r3:eth1'']\<rparr>,
                       \<lparr>endpoints = [''r2:eth2'', ''r3:eth2'']\<rparr>]\<rparr>
      = ([], Inl SubnetExhausted)
   \<and> distinct (concat (map hosts
        [\<lparr>network_address = 184418304, prefixlen = 31\<rparr>, \<lparr>network_address = 184418306, prefixlen = 31\<rparr>]))"
proof -
  let ?pool = "[\<lparr>network_address = 184418304, prefixlen = 31\<rparr>, \<lparr>network_address = 184418306, prefixlen = 31\<rparr>]"
  let ?ls = "[\<lparr>endpoints = [''r1:eth1'', ''r2:eth1'']\<rparr>, \<lparr>endpoints = [''r1:eth2'', ''r3:eth1'']\<rparr>,
                 \<lparr>endpoints = [''r2:eth2'', ''r3:eth2'']\<rparr>]"
  have h1: "generate_31_subnets 184418304 30 = Inr ?pool"
    by (simp add: generate_31_subnets_def ip_network_def subnets_def hostmask_def
          broadcast_address_def py_range_def Let_def upt_rec)
  have h2: "\<forall>l \<in> set ?ls. wf_link l" by (simp add: wf_link_def)
  have h3: "length ?ls = Suc (length ?pool)" by simp
  show ?thesis using h1 h2 pool_exhaustion [OF h1 h2 h3] by simp
qed

section \<open>Missing links section\<close>

text \<open>
  Claim C6. When the parsed topology has no \<open>links\<close> entry,
  \<open>generate_frrouter_addressing_info\<close> raises the error of line 58, the pool is returned
  as it was given, and no router configuration is produced.
\<close>

theorem missing_links_section:
  "generate_frrouter_addressing_info pool \<lparr>links = None\<rparr> = (pool, Inl MissingTopologyData)"
  by (simp add: generate_frrouter_addressing_info_def)

section \<open>Rejected parent blocks\<close>

text \<open>
  Claim C7. For every valid block of prefix length 31 or 32, \<open>generate_31_subnets\<close> fails
  with the error of line 19 and returns no subnet list.
\<close>

theorem prefix_31_or_longer_rejected:
  assumes "ip_network addr plen = Inr n" and "31 \<le> plen"
  shows "generate_31_subnets addr plen = Inl InvalidAllocationRequest"
  using assms ip_network_Inr [OF assms(1)] by (simp add: generate_31_subnets_def)

theorem prefix_31_or_longer_rejected_witness:
  "ip_network 184418304 31 = Inr \<lparr>network_address = 184418304, prefixlen = 31\<rparr>
   \<and> (31::nat) \<le> 31
   \<and> generate_31_subnets 184418304 31 = Inl InvalidAllocationRequest"
proof -
  have h1: "ip_network 184418304 31 = Inr \<lparr>network_address = 184418304, prefixlen = 31\<rparr>"
    by (simp add: ip_network_def)
  have h2: "(31::nat) \<le> 31" by simp
  show ?thesis using h1 h2 prefix_31_or_longer_rejected [OF h1 h2] by simp
qed

section \<open>The configuration assembler\<close>

lemma map_of_add_base_configs:
  "map_of (add_base_configs cfgs) r =
     map_option (\<lambda>ls. [''no ipv6 forwarding \<newline>'', ''hostname '' @ r @ '' \<newline>'',
                        ''frr defaults traditional \<newline>''] @ ls @
                       [''router ospf \<newline>'', '' network 10.254.0.0/16 area 0.0.0.0 \<newline>'',
                        ''line vty \<newline>'']) (map_of cfgs r)"
  by (induction cfgs) (auto simp: add_base_configs_def)

lemma keys_add_base_configs: "map fst (add_base_configs cfgs) = map fst cfgs"
  by (induction cfgs) (auto simp: add_base_configs_def)

lemma append_bgp_unknown:
  assumes "(r, c) \<in> set bgp" and "map_of cfgs r = None"
  shows "append_bgp bgp cfgs = Inl UnknownRouterReference"
  using assms
proof (induction bgp arbitrary: cfgs)
  case Nil
  then show ?case by simp
next
  case (Cons e bgp)
  obtain r' c' where e: "e = (r', c')" by (cases e)
  show ?case
  proof (cases "map_of cfgs r'")
    case None
    then show ?thesis by (simp add: e)
  next
    case (Some v)
    then have "r' \<noteq> r" using Cons.prems(2) by auto
    then have mem: "(r, c) \<in> set bgp" using Cons.prems(1) e by auto
    have "map_of (append_lines r' [c'] cfgs) r = None"
      using Cons.prems(2) \<open>r' \<noteq> r\<close> by (simp add: map_of_append_lines)
    from Cons.IH [OF mem this] show ?thesis using Some by (simp add: e)
  qed
qed

text \<open>
  Claim C8. When the exterior-protocol mapping has an entry for a router that has no
  list in \<open>rtr_configs\<close>, the assembly of lines 250-264 fails with the KeyError of
  line 264; the entry is not dropped.
\<close>

theorem unknown_router_reference:
  assumes "(r, c) \<in> set bgp_config" and "map_of cfgs r = None"
  shows "config_assembler cfgs bgp_config = Inl UnknownRouterReference"
proof -
  have "map_of (add_base_configs cfgs) r = None"
    using assms(2) by (simp add: map_of_add_base_configs)
  from append_bgp_unknown [OF assms(1) this] show ?thesis
    by (simp add: config_assembler_def)
qed

theorem unknown_router_reference_witness:
  "(''r9'', ''router bgp 65009\<newline>'') \<in> set [(''r1'', ''router bgp 65001\<newline>''), (''r9'', ''router bgp 65009\<newline>'')]
   \<and> map_of [(''r1'', [''interface eth1\<newline>'', '' ip address 10.254.0.254/31\<newline>''])] ''r9'' = None
   \<and> config_assembler [(''r1'', [''interface eth1\<newline>'', '' ip address 10.254.0.254/31\<newline>''])]
        [(''r1'', ''router bgp 65001\<newline>''), (''r9'', ''router bgp 65009\<newline>'')]
      = Inl UnknownRouterReference"
proof -
  have h1: "(''r9'', ''router bgp 65009\<newline>'') \<in> set [(''r1'', ''router bgp 65001\<newline>''), (''r9'', ''router bgp 65009\<newline>'')]"
    by simp
  have h2: "map_of [(''r1'', [''interface eth1\<newline>'', '' ip address 10.254.0.254/31\<newline>''])] ''r9'' = None"
    by simp
  show ?thesis using h1 h2 unknown_router_reference [OF h1 h2] by simp
qed

lemma map_of_append_bgp:
  assumes "append_bgp bgp cfgs = Inr final" and "distinct (map fst bgp)"
  shows "map_of final r =
     map_option (\<lambda>v. v @ (case map_of bgp r of None \<Rightarrow> [] | Some t \<Rightarrow> [t])) (map_of cfgs r)"
  using assms
proof (induction bgp arbitrary: cfgs)
  case Nil
  then show ?case by (simp add: option.map_ident)
next
  case (Cons e bgp)
  obtain r' c' where e: "e = (r', c')" by (cases e)
  from Cons.prems(1) obtain v where v: "map_of cfgs r' = Some v"
    by (cases "map_of cfgs r'") (auto simp: e)
  then have rest: "append_bgp bgp (append_lines r' [c'] cfgs) = Inr final"
    using Cons.prems(1) by (simp add: e)
  have d: "distinct (map fst bgp)" and nin: "r' \<notin> fst ` set bgp"
    using Cons.prems(2) by (simp_all add: e)
  from nin have none: "map_of bgp r' = None" by (simp add: map_of_eq_None_iff)
  from Cons.IH [OF rest d] have ih: "map_of final r =
     map_option (\<lambda>v. v @ (case map_of bgp r of None \<Rightarrow> [] | Some t \<Rightarrow> [t]))
       (map_of (append_lines r' [c'] cfgs) r)" .
  show ?case
  proof (cases "r = r'")
    case True
    then show ?thesis using ih none v by (simp add: e map_of_append_lines)
  next
    case False
    then show ?thesis using ih by (simp add: e map_of_append_lines)
  qed
qed

lemma append_bgp_succeeds:
  assumes "fst ` set bgp \<subseteq> fst ` set cfgs"
  shows "\<exists>final. append_bgp bgp cfgs = Inr final"
  using assms
proof (induction bgp arbitrary: cfgs)
  case Nil
  then show ?case by simp
next
  case (Cons e bgp)
  obtain r' c' where e: "e = (r', c')" by (cases e)
  from Cons.prems have "r' \<in> fst ` set cfgs" by (simp add: e)
  then obtain v where v: "map_of cfgs r' = Some v"
    by (metis map_of_eq_None_iff not_Some_eq)
  have "fst ` set (append_lines r' [c'] cfgs) = fst ` set cfgs"
    using keys_append_lines [of r' "[c']" cfgs] by (metis list.set_map)
  then have "fst ` set bgp \<subseteq> fst ` set (append_lines r' [c'] cfgs)"
    using Cons.prems by (simp add: e)
  from Cons.IH [OF this] show ?case using v by (simp add: e)
qed

section \<open>The run of main on the parent block 10.254.0.0/24\<close>

lemma str_ip_254: "str_ip 184418558 = ''10.254.0.254''"
  by (simp add: str_ip_def str_nat.simps digit_def)

lemma str_ip_255: "str_ip 184418559 = ''10.254.0.255''"
  by (simp add: str_ip_def str_nat.simps digit_def)

lemma str_nat_31: "str_nat 31 = ''31''"
  by (simp add: str_nat.simps digit_def)

lemma main_pool:
  "generate_31_subnets (fst parent_prefix) (snd parent_prefix) =
     Inr (map (\<lambda>i. \<lparr>network_address = 184418304 + 2 * i, prefixlen = 31\<rparr>) [0 ..< 128])"
proof -
  have ok: "ip_network 184418304 24 = Inr \<lparr>network_address = 184418304, prefixlen = 24\<rparr>"
    by (simp add: ip_network_def)
  have "generate_31_subnets 184418304 24 =
     Inr (map (\<lambda>i. \<lparr>network_address = 184418304 + 2 * i, prefixlen = 31\<rparr>) [0 ..< 2 ^ (31 - 24)])"
    by (rule generate_31_subnets_eq [OF ok]) simp
  then show ?thesis by (simp add: parent_prefix_def)
qed

lemma main_pool_last:
  "last (map (\<lambda>i. \<lparr>network_address = 184418304 + 2 * i, prefixlen = 31\<rparr>) [0 ..< 128])
     = \<lparr>network_address = 184418558, prefixlen = 31\<rparr>"
  by (simp add: last_map)

lemma single_link_addressing:
  "generate_frrouter_addressing_info
      (map (\<lambda>i. \<lparr>network_address = 184418304 + 2 * i, prefixlen = 31\<rparr>) [0 ..< 128])
      \<lparr>links = Some [\<lparr>endpoints = [''r1:eth1'', ''r2:eth1'']\<rparr>]\<rparr>
   = (butlast (map (\<lambda>i. \<lparr>network_address = 184418304 + 2 * i, prefixlen = 31\<rparr>) [0 ..< 128]),
      Inr [(''r1'', [''interface eth1\<newline>'', '' ip address 10.254.0.254/31\<newline>'']),
           (''r2'', [''interface eth1\<newline>'', '' ip address 10.254.0.255/31\<newline>''])])"
proof -
  let ?pool = "map (\<lambda>i. \<lparr>network_address = 184418304 + 2 * i, prefixlen = 31\<rparr>) [0 ..< 128]"
  let ?l = "\<lparr>endpoints = [''r1:eth1'', ''r2:eth1'']\<rparr>"
  have w: "wf_link ?l" by (simp add: wf_link_def)
  have ne: "?pool \<noteq> []" by simp
  have lp: "prefixlen (last ?pool) = 31" by (simp only: main_pool_last) simp
  show ?thesis
    unfolding generate_frrouter_addressing_info_def
    by (simp add: assign_link_ok [OF w ne lp] main_pool_last router_of_def iface_of_def
          add_interface_def append_lines_def str_ip_254 str_ip_255 str_nat_31 del: upt_Suc map_butlast)
qed

text \<open>
  Claim C4, as the code has it. For well-formed links, at most as many as the 128 subnets
  of the parent block, and a mapping with one entry per key whose keys are routers of
  the topology, \<open>main\<close> produces the configurations, and the list of every router of the
  topology is: the no-IPv6-forwarding line, the hostname line, the defaults line; then
  the interface blocks of the router in the order they were appended, each the interface
  line followed by the address line; then the three lines of the OSPF block; and then
  the BGP text of the router as the last element, if the mapping has an entry for it. A
  router with no entry ends with the \<open>line vty\<close> line.
\<close>

theorem final_configuration_order:
  assumes "\<forall>l \<in> set ls. wf_link l" and "length ls \<le> 128"
    and "distinct (map fst bgp_config)" and "fst ` set bgp_config \<subseteq> routers_of_links ls"
  shows "\<exists>pool final.
       generate_31_subnets (fst parent_prefix) (snd parent_prefix) = Inr pool
     \<and> main_configs \<lparr>links = Some ls\<rparr> bgp_config = Inr final
     \<and> (\<forall>r. map_of final r =
            (if r \<in> routers_of_links ls
             then Some ([''no ipv6 forwarding \<newline>'', ''hostname '' @ r @ '' \<newline>'',
                         ''frr defaults traditional \<newline>''] @
                        concat (map (link_fragments r) (zip ls (rev pool))) @
                        [''router ospf \<newline>'', '' network 10.254.0.0/16 area 0.0.0.0 \<newline>'',
                         ''line vty \<newline>''] @
                        (case map_of bgp_config r of None \<Rightarrow> [] | Some text \<Rightarrow> [text]))
             else None))"
proof -
  let ?pool = "map (\<lambda>i. \<lparr>network_address = 184418304 + 2 * i, prefixlen = 31\<rparr>) [0 ..< 128]"
  have p31: "\<forall>s \<in> set ?pool. prefixlen s = 31" by auto
  have le: "length ls \<le> length ?pool" using assms(2) by simp
  from addressing_info_closed_form [OF assms(1) p31 le] obtain cfgs where
    g: "generate_frrouter_addressing_info ?pool \<lparr>links = Some ls\<rparr>
          = (take (length ?pool - length ls) ?pool, Inr cfgs)"
    and m: "\<forall>r. map_of cfgs r =
            (if r \<in> routers_of_links ls then Some (pool_fragments r ls ?pool) else None)"
    by blast
  have keys: "fst ` set cfgs = routers_of_links ls"
  proof (intro equalityI subsetI)
    fix r assume "r \<in> fst ` set cfgs"
    then have "map_of cfgs r \<noteq> None" by (simp add: map_of_eq_None_iff)
    then show "r \<in> routers_of_links ls" using m [rule_format, of r] by (simp split: if_splits)
  next
    fix r assume "r \<in> routers_of_links ls"
    then have "map_of cfgs r \<noteq> None" using m [rule_format, of r] by simp
    then show "r \<in> fst ` set cfgs" by (simp add: map_of_eq_None_iff)
  qed
  have "fst ` set (add_base_configs cfgs) = fst ` set cfgs"
    using keys_add_base_configs [of cfgs] by (metis list.set_map)
  then have "fst ` set bgp_config \<subseteq> fst ` set (add_base_configs cfgs)"
    using assms(4) keys by simp
  from append_bgp_succeeds [OF this] obtain final where
    f: "append_bgp bgp_config (add_base_configs cfgs) = Inr final" by blast
  have run: "main_configs \<lparr>links = Some ls\<rparr> bgp_config = Inr final"
    using f g by (simp add: main_configs_def main_pool config_assembler_def del: upt_Suc)
  have "map_of final r =
            (if r \<in> routers_of_links ls
             then Some ([''no ipv6 forwarding \<newline>'', ''hostname '' @ r @ '' \<newline>'',
                         ''frr defaults traditional \<newline>''] @
                        concat (map (link_fragments r) (zip ls (rev ?pool))) @
                        [''router ospf \<newline>'', '' network 10.254.0.0/16 area 0.0.0.0 \<newline>'',
                         ''line vty \<newline>''] @
                        (case map_of bgp_config r of None \<Rightarrow> [] | Some text \<Rightarrow> [text]))
             else None)" for r
    unfolding map_of_append_bgp [OF f assms(3)] map_of_add_base_configs m [rule_format]
    by (simp add: pool_fragments_def del: upt_Suc)
  then show ?thesis using main_pool run by blast
qed

lemma single_link_main:
  "main_configs \<lparr>links = Some [\<lparr>endpoints = [''r1:eth1'', ''r2:eth1'']\<rparr>]\<rparr> bgp_config =
     config_assembler
       [(''r1'', [''interface eth1\<newline>'', '' ip address 10.254.0.254/31\<newline>'']),
        (''r2'', [''interface eth1\<newline>'', '' ip address 10.254.0.255/31\<newline>''])] bgp_config"
  by (simp only: main_configs_def main_pool single_link_addressing sum.case prod.case)

theorem final_configuration_order_witness:
  "wf_link \<lparr>endpoints = [''r1:eth1'', ''r2:eth1'']\<rparr>
   \<and> length [\<lparr>endpoints = [''r1:eth1'', ''r2:eth1'']\<rparr>] \<le> 128
   \<and> distinct (map fst [(''r1'', ''router bgp 65001\<newline>'')])
   \<and> fst ` set [(''r1'', ''router bgp 65001\<newline>'')]
        \<subseteq> routers_of_links [\<lparr>endpoints = [''r1:eth1'', ''r2:eth1'']\<rparr>]
   \<and> (\<exists>final. main_configs \<lparr>links = Some [\<lparr>endpoints = [''r1:eth1'', ''r2:eth1'']\<rparr>]\<rparr>
                  [(''r1'', ''router bgp 65001\<newline>'')] = Inr final
        \<and> map_of final ''r1'' =
            Some [''no ipv6 forwarding \<newline>'', ''hostname r1 \<newline>'', ''frr defaults traditional \<newline>'',
                  ''interface eth1\<newline>'', '' ip address 10.254.0.254/31\<newline>'',
                  ''router ospf \<newline>'', '' network 10.254.0.0/16 area 0.0.0.0 \<newline>'',
                  ''line vty \<newline>'', ''router bgp 65001\<newline>'']
        \<and> map_of final ''r2'' =
            Some [''no ipv6 forwarding \<newline>'', ''hostname r2 \<newline>'', ''frr defaults traditional \<newline>'',
                  ''interface eth1\<newline>'', '' ip address 10.254.0.255/31\<newline>'',
                  ''router ospf \<newline>'', '' network 10.254.0.0/16 area 0.0.0.0 \<newline>'',
                  ''line vty \<newline>'']
        \<and> map_of final ''r3'' = None)"
proof -
  let ?l = "\<lparr>endpoints = [''r1:eth1'', ''r2:eth1'']\<rparr>"
  let ?bgp = "[(''r1'', ''router bgp 65001\<newline>'')]"
  let ?pool = "map (\<lambda>i. \<lparr>network_address = 184418304 + 2 * i, prefixlen = 31\<rparr>) [0 ..< 128]"
  have r: "routers_of_links [?l] = {''r1'', ''r2''}"
    by (auto simp: routers_of_links_def router_of_def)
  have h1: "\<forall>l \<in> set [?l]. wf_link l" by (simp add: wf_link_def)
  have h2: "length [?l] \<le> 128" by simp
  have h3: "distinct (map fst ?bgp)" by simp
  have h4: "fst ` set ?bgp \<subseteq> routers_of_links [?l]" unfolding r by simp
  from final_configuration_order [OF h1 h2 h3 h4] obtain pool final where
    p: "generate_31_subnets (fst parent_prefix) (snd parent_prefix) = Inr pool"
    and f: "main_configs \<lparr>links = Some [?l]\<rparr> ?bgp = Inr final"
    and m: "\<forall>r. map_of final r =
            (if r \<in> routers_of_links [?l]
             then Some ([''no ipv6 forwarding \<newline>'', ''hostname '' @ r @ '' \<newline>'',
                         ''frr defaults traditional \<newline>''] @
                        concat (map (link_fragments r) (zip [?l] (rev pool))) @
                        [''router ospf \<newline>'', '' network 10.254.0.0/16 area 0.0.0.0 \<newline>'',
                         ''line vty \<newline>''] @
                        (case map_of ?bgp r of None \<Rightarrow> [] | Some text \<Rightarrow> [text]))
             else None)"
    by blast
  have pool: "pool = ?pool" using p main_pool by simp
  have ne: "?pool \<noteq> []" by simp
  have fr: "concat (map (link_fragments x) (zip [?l] (rev pool)))
              = link_fragments x (?l, \<lparr>network_address = 184418558, prefixlen = 31\<rparr>)" for x
    using pool_fragments_Cons [OF ne, of x ?l "[]"]
    unfolding pool main_pool_last by (simp only: pool_fragments_def) simp
  have "map_of final ''r1'' =
            Some [''no ipv6 forwarding \<newline>'', ''hostname r1 \<newline>'', ''frr defaults traditional \<newline>'',
                  ''interface eth1\<newline>'', '' ip address 10.254.0.254/31\<newline>'',
                  ''router ospf \<newline>'', '' network 10.254.0.0/16 area 0.0.0.0 \<newline>'',
                  ''line vty \<newline>'', ''router bgp 65001\<newline>'']"
    unfolding m [rule_format] fr r
    by (simp add: link_fragments_def router_of_def iface_of_def interface_block_def
          str_ip_254 str_nat_31)
  moreover have "map_of final ''r2'' =
            Some [''no ipv6 forwarding \<newline>'', ''hostname r2 \<newline>'', ''frr defaults traditional \<newline>'',
                  ''interface eth1\<newline>'', '' ip address 10.254.0.255/31\<newline>'',
                  ''router ospf \<newline>'', '' network 10.254.0.0/16 area 0.0.0.0 \<newline>'',
                  ''line vty \<newline>'']"
    unfolding m [rule_format] fr r
    by (simp add: link_fragments_def router_of_def iface_of_def interface_block_def
          str_ip_255 str_nat_31)
  moreover have "map_of final ''r3'' = None"
    unfolding m [rule_format] r by simp
  moreover have "wf_link ?l" using h1 by simp
  ultimately show ?thesis using h2 h3 h4 f by blast
qed

text \<open>
  Claim C4 as stated fails for a router the mapping has no entry for: with the single
  link and a mapping that names only \<open>r1\<close>, the list of \<open>r2\<close> ends with the
  \<open>line vty\<close> line and holds no BGP text.
\<close>

theorem router_without_bgp_entry:
  "main_configs \<lparr>links = Some [\<lparr>endpoints = [''r1:eth1'', ''r2:eth1'']\<rparr>]\<rparr>
      [(''r1'', ''router bgp 65001\<newline>'')]
   = Inr [(''r1'', [''no ipv6 forwarding \<newline>'', ''hostname r1 \<newline>'', ''frr defaults traditional \<newline>'',
                    ''interface eth1\<newline>'', '' ip address 10.254.0.254/31\<newline>'',
                    ''router ospf \<newline>'', '' network 10.254.0.0/16 area 0.0.0.0 \<newline>'',
                    ''line vty \<newline>'', ''router bgp 65001\<newline>'']),
          (''r2'', [''no ipv6 forwarding \<newline>'', ''hostname r2 \<newline>'', ''frr defaults traditional \<newline>'',
                    ''interface eth1\<newline>'', '' ip address 10.254.0.255/31\<newline>'',
                    ''router ospf \<newline>'', '' network 10.254.0.0/16 area 0.0.0.0 \<newline>'',
                    ''line vty \<newline>''])]"
  by (simp add: single_link_main config_assembler_def add_base_configs_def append_lines_def)

text \<open>
  Claim C3 as stated fails: on the parent block 10.254.0.0/24 and the single link, the
  subnet taken is the last of the pool, 10.254.0.254/31, not 10.254.0.0/31; \<open>r1\<close> gets
  10.254.0.254/31 and \<open>r2\<close> gets 10.254.0.255/31.
\<close>

theorem example_takes_last_subnet:
  "main_configs \<lparr>links = Some [\<lparr>endpoints = [''r1:eth1'', ''r2:eth1'']\<rparr>]\<rparr> []
   = Inr [(''r1'', [''no ipv6 forwarding \<newline>'', ''hostname r1 \<newline>'', ''frr defaults traditional \<newline>'',
                    ''interface eth1\<newline>'', '' ip address 10.254.0.254/31\<newline>'',
                    ''router ospf \<newline>'', '' network 10.254.0.0/16 area 0.0.0.0 \<newline>'',
                    ''line vty \<newline>'']),
          (''r2'', [''no ipv6 forwarding \<newline>'', ''hostname r2 \<newline>'', ''frr defaults traditional \<newline>'',
                    ''interface eth1\<newline>'', '' ip address 10.254.0.255/31\<newline>'',
                    ''router ospf \<newline>'', '' network 10.254.0.0/16 area 0.0.0.0 \<newline>'',
                    ''line vty \<newline>''])]"
  by (simp add: single_link_main config_assembler_def add_base_configs_def)

text \<open>
  Claim C3, as the code has it. The parent block 10.254.0.0/24 yields 128 subnets, the
  last of which is 10.254.0.254/31. With the single link \<open>r1:eth1\<close>, \<open>r2:eth1\<close> exactly
  that one subnet leaves the pool; \<open>eth1\<close> of \<open>r1\<close> is assigned 10.254.0.254/31 and
  \<open>eth1\<close> of \<open>r2\<close> 10.254.0.255/31; and with a BGP text for each of the two routers
  both assembled configurations contain the OSPF network statement for 10.254.0.0/16.
\<close>

theorem example_end_to_end:
  "\<exists>pool. generate_31_subnets (fst parent_prefix) (snd parent_prefix) = Inr pool
     \<and> length pool = 128
     \<and> last pool = \<lparr>network_address = 184418558, prefixlen = 31\<rparr>
     \<and> str_ip 184418558 = ''10.254.0.254''
     \<and> generate_frrouter_addressing_info pool \<lparr>links = Some [\<lparr>endpoints = [''r1:eth1'', ''r2:eth1'']\<rparr>]\<rparr>
         = (butlast pool,
            Inr [(''r1'', [''interface eth1\<newline>'', '' ip address 10.254.0.254/31\<newline>'']),
                 (''r2'', [''interface eth1\<newline>'', '' ip address 10.254.0.255/31\<newline>''])])
     \<and> main_configs \<lparr>links = Some [\<lparr>endpoints = [''r1:eth1'', ''r2:eth1'']\<rparr>]\<rparr>
           [(''r1'', bgp1), (''r2'', bgp2)]
         = Inr [(''r1'', [''no ipv6 forwarding \<newline>'', ''hostname r1 \<newline>'',
                          ''frr defaults traditional \<newline>'',
                          ''interface eth1\<newline>'', '' ip address 10.254.0.254/31\<newline>'',
                          ''router ospf \<newline>'', '' network 10.254.0.0/16 area 0.0.0.0 \<newline>'',
                          ''line vty \<newline>'', bgp1]),
                (''r2'', [''no ipv6 forwarding \<newline>'', ''hostname r2 \<newline>'',
                          ''frr defaults traditional \<newline>'',
                          ''interface eth1\<newline>'', '' ip address 10.254.0.255/31\<newline>'',
                          ''router ospf \<newline>'', '' network 10.254.0.0/16 area 0.0.0.0 \<newline>'',
                          ''line vty \<newline>'', bgp2])]"
proof -
  let ?pool = "map (\<lambda>i. \<lparr>network_address = 184418304 + 2 * i, prefixlen = 31\<rparr>) [0 ..< 128]"
  have "length ?pool = 128" by simp
  moreover have "main_configs \<lparr>links = Some [\<lparr>endpoints = [''r1:eth1'', ''r2:eth1'']\<rparr>]\<rparr>
           [(''r1'', bgp1), (''r2'', bgp2)]
         = Inr [(''r1'', [''no ipv6 forwarding \<newline>'', ''hostname r1 \<newline>'',
                          ''frr defaults traditional \<newline>'',
                          ''interface eth1\<newline>'', '' ip address 10.254.0.254/31\<newline>'',
                          ''router ospf \<newline>'', '' network 10.254.0.0/16 area 0.0.0.0 \<newline>'',
                          ''line vty \<newline>'', bgp1]),
                (''r2'', [''no ipv6 forwarding \<newline>'', ''hostname r2 \<newline>'',
                          ''frr defaults traditional \<newline>'',
                          ''interface eth1\<newline>'', '' ip address 10.254.0.255/31\<newline>'',
                          ''router ospf \<newline>'', '' network 10.254.0.0/16 area 0.0.0.0 \<newline>'',
                          ''line vty \<newline>'', bgp2])]"
    by (simp add: single_link_main config_assembler_def add_base_configs_def append_lines_def)
  ultimately show ?thesis
    using main_pool main_pool_last single_link_addressing str_ip_254 by blast
qed

section \<open>Self-loop links\<close>

text \<open>
  Claim C10, as the code has it. A well-formed link whose two endpoints name the same
  router does not fail and is not rejected: it takes exactly one subnet from the tail of
  the pool, and both host addresses of that subnet are configured on the router, which
  gets the block of the first endpoint and then the block of the second; the lists of
  all other routers are unchanged.
\<close>

theorem self_loop_is_configured:
  assumes "wf_link l" and "router_of (endpoints l ! 0) = router_of (endpoints l ! 1)"
    and "pool \<noteq> []" and "prefixlen (last pool) = 31"
  shows "\<exists>cfgs'. assign_link l pool cfgs = (butlast pool, Inr cfgs')
     \<and> map_of cfgs' (router_of (endpoints l ! 0)) =
         Some (lines_of cfgs (router_of (endpoints l ! 0)) @
               interface_block (iface_of (endpoints l ! 0)) (network_address (last pool)) 31 @
               interface_block (iface_of (endpoints l ! 1)) (Suc (network_address (last pool))) 31)
     \<and> (\<forall>r. r \<noteq> router_of (endpoints l ! 0) \<longrightarrow> map_of cfgs' r = map_of cfgs r)"
  unfolding assign_link_ok [OF assms(1,3,4)]
  using assms(2) by (simp add: map_of_add_interface lines_of_add_interface)

theorem self_loop_is_configured_witness:
  "wf_link \<lparr>endpoints = [''r1:eth1'', ''r1:eth2'']\<rparr>
   \<and> router_of (endpoints \<lparr>endpoints = [''r1:eth1'', ''r1:eth2'']\<rparr> ! 0)
       = router_of (endpoints \<lparr>endpoints = [''r1:eth1'', ''r1:eth2'']\<rparr> ! 1)
   \<and> [\<lparr>network_address = 184418558, prefixlen = 31\<rparr>] \<noteq> []
   \<and> prefixlen (last [\<lparr>network_address = 184418558, prefixlen = 31\<rparr>]) = 31
   \<and> (\<exists>cfgs'. assign_link \<lparr>endpoints = [''r1:eth1'', ''r1:eth2'']\<rparr>
                   [\<lparr>network_address = 184418558, prefixlen = 31\<rparr>] [] = ([], Inr cfgs')
        \<and> map_of cfgs' ''r1'' =
            Some [''interface eth1\<newline>'', '' ip address 10.254.0.254/31\<newline>'',
                  ''interface eth2\<newline>'', '' ip address 10.254.0.255/31\<newline>''])"
proof -
  let ?l = "\<lparr>endpoints = [''r1:eth1'', ''r1:eth2'']\<rparr>"
  let ?pool = "[\<lparr>network_address = 184418558, prefixlen = 31\<rparr>]"
  have h1: "wf_link ?l" by (simp add: wf_link_def)
  have h2: "router_of (endpoints ?l ! 0) = router_of (endpoints ?l ! 1)"
    by (simp add: router_of_def)
  have h3: "?pool \<noteq> []" by simp
  have h4: "prefixlen (last ?pool) = 31" by simp
  from self_loop_is_configured [OF h1 h2 h3 h4, of "[]"] obtain cfgs' where
    a: "assign_link ?l ?pool [] = (butlast ?pool, Inr cfgs')"
    and m: "map_of cfgs' (router_of (endpoints ?l ! 0)) =
         Some (lines_of [] (router_of (endpoints ?l ! 0)) @
               interface_block (iface_of (endpoints ?l ! 0)) (network_address (last ?pool)) 31 @
               interface_block (iface_of (endpoints ?l ! 1)) (Suc (network_address (last ?pool))) 31)"
    by blast
  have "map_of cfgs' ''r1'' =
            Some [''interface eth1\<newline>'', '' ip address 10.254.0.254/31\<newline>'',
                  ''interface eth2\<newline>'', '' ip address 10.254.0.255/31\<newline>'']"
    using m by (simp add: router_of_def iface_of_def lines_of_def interface_block_def
                  str_ip_254 str_ip_255 str_nat_31)
  then show ?thesis using h1 h2 h3 h4 a by auto
qed

text \<open>
  Claim C10 as stated fails in its last part: the self-loop link is not ignored and its
  subnet is not wasted, the router receives two interface blocks.
\<close>

theorem self_loop_not_ignored:
  "generate_frrouter_addressing_info [\<lparr>network_address = 184418558, prefixlen = 31\<rparr>]
      \<lparr>links = Some [\<lparr>endpoints = [''r1:eth1'', ''r1:eth2'']\<rparr>]\<rparr>
   = ([], Inr [(''r1'', [''interface eth1\<newline>'', '' ip address 10.254.0.254/31\<newline>'',
                        ''interface eth2\<newline>'', '' ip address 10.254.0.255/31\<newline>''])])"
proof -
  let ?l = "\<lparr>endpoints = [''r1:eth1'', ''r1:eth2'']\<rparr>"
  let ?pool = "[\<lparr>network_address = 184418558, prefixlen = 31\<rparr>]"
  have w: "wf_link ?l" by (simp add: wf_link_def)
  have ne: "?pool \<noteq> []" by simp
  have lp: "prefixlen (last ?pool) = 31" by simp
  show ?thesis
    unfolding generate_frrouter_addressing_info_def
    by (simp add: assign_link_ok [OF w ne lp] router_of_def iface_of_def
          add_interface_def append_lines_def str_ip_254 str_ip_255 str_nat_31)
qed

section \<open>Deployment\<close>

text \<open>
  The standard error of the tool is not piped, so \<open>communicate\<close> returns \<open>None\<close> for
  it and the test of line 297 is never true.
\<close>

lemma deploy_never_fails: "deploy r = Inr ()"
  by (simp add: deploy_def communicate_def)

text \<open>
  Claim C9, at a run of the tool that writes to its standard error and exits with code 1:
  \<open>deploy\<close> returns normally; the error of line 298 is not raised.
\<close>

theorem deploy_ignores_stderr:
  "deploy \<lparr>tool_stdout = '''', tool_stderr = ''Error: lab already deployed'', returncode = 1\<rparr> = Inr ()"
  by (simp add: deploy_def communicate_def)

end
